theory Spec2Isabelle
  imports Complex_Main "HOL-Library.Sublist" "HOL-Library.AList"
begin

section \<open>JavaScript values\<close>

text \<open>
  The values that flow through \<^verbatim>\<open>src/core.js\<close>: front-matter attributes, YAML configs and
  documents. Numbers are the integers (floating point is outside the model). An object is the
  association list of its own properties, read with \<open>map_of\<close> and written with
  \<open>AList.update\<close> (an existing key keeps its place, a new key goes to the end, as property
  insertion does). \<open>JBuiltin n\<close> stands for the member \<open>n\<close> that every plain object inherits
  from \<^verbatim>\<open>Object.prototype\<close>.
\<close>

datatype jsval =
    JUndefined
  | JNull
  | JBool bool
  | JNum int
  | JStr string
  | JArr "jsval list"
  | JObj "(string \<times> jsval) list"
  | JBuiltin string

type_synonym obj = "(string \<times> jsval) list"

datatype error = Error string | TypeError

text \<open>Truthiness, as \<^verbatim>\<open>if (x)\<close> and \<^verbatim>\<open>!x\<close> read it.\<close>

fun truthy :: "jsval \<Rightarrow> bool" where
  "truthy JUndefined = False"
| "truthy JNull = False"
| "truthy (JBool b) = b"
| "truthy (JNum n) = (n \<noteq> 0)"
| "truthy (JStr s) = (s \<noteq> [])"
| "truthy (JArr xs) = True"
| "truthy (JObj kvs) = True"
| "truthy (JBuiltin n) = True"

text \<open>Decimal digits of a number, for template literals and property keys.\<close>

definition digit_char :: "nat \<Rightarrow> char" where
  "digit_char d = ''0123456789'' ! d"

fun nat_to_string :: "nat \<Rightarrow> string" where
  "nat_to_string n =
     (if n < 10 then [digit_char n] else nat_to_string (n div 10) @ [digit_char (n mod 10)])"

declare nat_to_string.simps [simp del]

definition num_to_string :: "int \<Rightarrow> string" where
  "num_to_string i = (if i < 0 then CHR ''-'' # nat_to_string (nat (- i)) else nat_to_string (nat i))"

fun join_comma :: "string list \<Rightarrow> string" where
  "join_comma [] = []"
| "join_comma [s] = s"
| "join_comma (s # t # ss) = s @ CHR '','' # join_comma (t # ss)"

text \<open>
  \<^verbatim>\<open>ToString\<close>: what \<^verbatim>\<open>`${x}`\<close> and \<^verbatim>\<open>obj[x]\<close> make of a value. An array joins its
  elements with commas, \<^verbatim>\<open>null\<close> and \<^verbatim>\<open>undefined\<close> elements giving the empty string.
\<close>

fun js_to_string :: "jsval \<Rightarrow> string" where
  "js_to_string JUndefined = ''undefined''"
| "js_to_string JNull = ''null''"
| "js_to_string (JBool b) = (if b then ''true'' else ''false'')"
| "js_to_string (JNum n) = num_to_string n"
| "js_to_string (JStr s) = s"
| "js_to_string (JArr xs) =
     join_comma (map (\<lambda>x. if x = JUndefined \<or> x = JNull then [] else js_to_string x) xs)"
| "js_to_string (JObj kvs) = ''[object Object]''"
| "js_to_string (JBuiltin n) =
     (if n = ''__proto__'' then ''[object Object]''
      else if n = ''constructor'' then ''function Object() { [native code] }''
      else ''function '' @ n @ ''() { [native code] }'')"

text \<open>
  Reading a property. \<open>obj_get\<close> reads an own property; \<open>js_get\<close> is \<^verbatim>\<open>o[k]\<close> on a plain
  object, which falls back to the members inherited from \<^verbatim>\<open>Object.prototype\<close>.
\<close>

definition object_prototype_members :: "string list" where
  "object_prototype_members =
     [''constructor'', ''hasOwnProperty'', ''isPrototypeOf'', ''propertyIsEnumerable'',
      ''toLocaleString'', ''toString'', ''valueOf'', ''__proto__'',
      ''__defineGetter__'', ''__defineSetter__'', ''__lookupGetter__'', ''__lookupSetter__'']"

definition obj_get :: "obj \<Rightarrow> string \<Rightarrow> jsval" where
  "obj_get ob k = (case map_of ob k of Some v \<Rightarrow> v | None \<Rightarrow> JUndefined)"

definition js_get :: "obj \<Rightarrow> string \<Rightarrow> jsval" where
  "js_get ob k =
     (case map_of ob k of
        Some v \<Rightarrow> v
      | None \<Rightarrow> if k \<in> set object_prototype_members then JBuiltin k else JUndefined)"

text \<open>
  Object spread \<^verbatim>\<open>{...a, ...b}\<close>: the own enumerable properties of \<open>b\<close> are defined on a
  copy of \<open>a\<close>, one after the other. Spreading a string or an array gives its indexed
  elements, spreading any other primitive gives nothing. An association list stands for the
  object whose properties are its first bindings (\<open>AList.clearjunk\<close> drops the others), in
  agreement with \<open>map_of\<close>.
\<close>

definition own_props :: "jsval \<Rightarrow> obj" where
  "own_props v =
     (case v of
        JObj kvs \<Rightarrow> kvs
      | JArr xs \<Rightarrow> zip (map nat_to_string [0..<length xs]) xs
      | JStr s \<Rightarrow> zip (map nat_to_string [0..<length s]) (map (\<lambda>c. JStr [c]) s)
      | _ \<Rightarrow> [])"

definition spread :: "('k \<times> 'v) list \<Rightarrow> ('k \<times> 'v) list \<Rightarrow> ('k \<times> 'v) list" where
  "spread target source =
     foldl (\<lambda>acc (k, v). AList.update k v acc) target (AList.clearjunk source)"

section \<open>Strings\<close>





text \<open>
  \<^verbatim>\<open>s.replace(/\/index$/, '')\<close>: the pattern is tried at each position from the left and can
  only match where the rest of the string is exactly \<^verbatim>\<open>/index\<close>.
\<close>

fun replace_index_end :: "string \<Rightarrow> string" where
  "replace_index_end [] = []"
| "replace_index_end (c # cs) = (if c # cs = ''/index'' then [] else c # replace_index_end cs)"

text \<open>
  \<^verbatim>\<open>s.replace(/\/\//, '/')\<close>: the pattern has no \<^verbatim>\<open>g\<close> flag, so only the leftmost pair of
  slashes is replaced.
\<close>

fun replace_double_slash :: "string \<Rightarrow> string" where
  "replace_double_slash (a # b # cs) =
     (if a = CHR ''/'' \<and> b = CHR ''/'' then CHR ''/'' # cs else a # replace_double_slash (b # cs))"
| "replace_double_slash cs = cs"

text \<open>
  Modelled from the spec: \<^verbatim>\<open>removeExtension\<close> lives in \<^verbatim>\<open>src/util.js\<close>, which is not among
  the sources. The spec says it strips the file extension: the last dot of the name together
  with the non-empty run of word characters (letters, digits, underscore) that ends the name.
\<close>

definition is_word_char :: "char \<Rightarrow> bool" where
  "is_word_char c =
     (let n = (of_char c :: nat)
      in (48 \<le> n \<and> n \<le> 57) \<or> (65 \<le> n \<and> n \<le> 90) \<or> (97 \<le> n \<and> n \<le> 122) \<or> n = 95)"

fun removeExtension :: "string \<Rightarrow> string" where
  "removeExtension [] = []"
| "removeExtension (c # cs) =
     (if c = CHR ''.'' \<and> cs \<noteq> [] \<and> list_all is_word_char cs then []
      else c # removeExtension cs)"

section \<open>Paths and URLs\<close>

text \<open>
  \<^verbatim>\<open>filepathToUrl\<close> (core.js, line 22). The helper that strips the extension is a parameter,
  so that what is proved of \<open>filepathToUrl\<close> holds for any implementation of it.
\<close>

definition filepathToUrl :: "(string \<Rightarrow> string) \<Rightarrow> string \<Rightarrow> string" where
  "filepathToUrl remove_ext filepath =
     (let url = CHR ''/'' # remove_ext filepath;
          url = replace_index_end url
      in if url = [] then ''/'' else url)"

text \<open>\<^verbatim>\<open>getPageNumberUrl\<close> (core.js, line 288); \<open>idx\<close> is the option \<^verbatim>\<open>index\<close>.\<close>

definition getPageNumberUrl :: "string \<Rightarrow> int \<Rightarrow> bool \<Rightarrow> string" where
  "getPageNumberUrl url_prefix pageNumber idx =
     (let url =
        (if pageNumber = 1 then (if idx then url_prefix @ ''/index'' else url_prefix)
         else url_prefix @ ''/page/'' @ num_to_string pageNumber)
      in replace_double_slash url)"

section \<open>Pagination\<close>

text \<open>
  The options object of \<^verbatim>\<open>paginate\<close>. An option that the caller leaves out is
  \<^verbatim>\<open>undefined\<close>, here \<open>None\<close>; \<^verbatim>\<open>index\<close> is read as a condition only, and
  \<^verbatim>\<open>extra\<close> defaults to the empty object.
\<close>

record paginate_options =
  sourcePathPrefix :: "string option"
  urlPrefix :: "string option"
  documentsPerPage :: "int option"
  layout :: "string option"
  index :: bool
  extra :: obj

text \<open>\<^verbatim>\<open>_.range(n)\<close>: counts up from 0 to \<open>n - 1\<close>, and down to \<open>n + 1\<close> when \<open>n\<close> is negative.\<close>

definition lodash_range :: "int \<Rightarrow> int list" where
  "lodash_range n = (if 0 \<le> n then [0..n - 1] else map uminus [0..- n - 1])"

text \<open>
  \<^verbatim>\<open>Array.prototype.slice(begin, end)\<close>: a negative bound counts from the end, and both
  bounds are clamped to the array.
\<close>

definition js_slice :: "'a list \<Rightarrow> int \<Rightarrow> int \<Rightarrow> 'a list" where
  "js_slice xs b e =
     (let n = int (length xs);
          k = (if b < 0 then max (n + b) 0 else min b n);
          f = (if e < 0 then max (n + e) 0 else min e n)
      in take (nat (f - k)) (drop (nat k) xs))"

definition quoted :: "string \<Rightarrow> string" where
  "quoted s = CHR 0x22 # s @ [CHR 0x22]"

definition not_specified :: "string \<Rightarrow> error" where
  "not_specified name = Error (quoted name @ '' not specified for paginate().'')"

text \<open>The body of the \<^verbatim>\<open>map\<close> callback of \<^verbatim>\<open>paginate\<close>: the page built from one element of the range.\<close>

definition paginate_page ::
  "jsval list \<Rightarrow> string \<Rightarrow> string \<Rightarrow> int \<Rightarrow> string \<Rightarrow> bool \<Rightarrow> obj \<Rightarrow> int \<Rightarrow> int \<Rightarrow> jsval" where
  "paginate_page documents source_prefix url_prefix per_page page_layout idx extra_fields totalPages i =
     (let pageNumber = i + 1;
          sourcePath = getPageNumberUrl source_prefix pageNumber idx;
          url = getPageNumberUrl url_prefix pageNumber False;
          begin = (pageNumber - 1) * per_page
      in JObj (spread extra_fields
           [(''previousUrl'',
               if pageNumber > 1 then JStr (getPageNumberUrl url_prefix (pageNumber - 1) False)
               else JNull),
            (''nextUrl'',
               if pageNumber < totalPages then JStr (getPageNumberUrl url_prefix (pageNumber + 1) False)
               else JNull),
            (''documents'', JArr (js_slice documents begin (begin + per_page))),
            (''documentsTotal'', JNum (int (length documents))),
            (''sourcePath'', JStr sourcePath),
            (''layout'', JStr page_layout),
            (''url'', JStr url)]))"

text \<open>
  \<^verbatim>\<open>paginate\<close> (core.js, line 316). Each \<^verbatim>\<open>throw\<close> is an \<open>Inl\<close>;
  \<^verbatim>\<open>Math.ceil(documents.length / documentsPerPage)\<close> is the ceiling of the real quotient.
\<close>

definition paginate :: "jsval list \<Rightarrow> paginate_options \<Rightarrow> error + jsval list" where
  "paginate documents opts =
     (case sourcePathPrefix opts of
        None \<Rightarrow> Inl (not_specified ''sourcePathPrefix'')
      | Some source_prefix \<Rightarrow>
     (case urlPrefix opts of
        None \<Rightarrow> Inl (not_specified ''urlPrefix'')
      | Some url_prefix \<Rightarrow>
     (case documentsPerPage opts of
        None \<Rightarrow> Inl (not_specified ''documentsPerPage'')
      | Some per_page \<Rightarrow>
     if per_page = 0 then Inl (not_specified ''documentsPerPage'')
     else
     (case layout opts of
        None \<Rightarrow> Inl (not_specified ''layout'')
      | Some page_layout \<Rightarrow>
     if page_layout = [] then Inl (not_specified ''layout'')
     else
       (let totalPages = \<lceil>real (length documents) / real_of_int per_page\<rceil>
        in Inr (map (paginate_page documents source_prefix url_prefix per_page page_layout
                       (index opts) (extra opts) totalPages)
                  (lodash_range totalPages)))))))"

text \<open>The documents of a page, and an own property of a page, for stating what a page holds.\<close>

definition page_get :: "jsval \<Rightarrow> string \<Rightarrow> jsval" where
  "page_get page k = (case page of JObj kvs \<Rightarrow> obj_get kvs k | _ \<Rightarrow> JUndefined)"

definition page_documents :: "jsval \<Rightarrow> jsval list" where
  "page_documents page = (case page_get page ''documents'' of JArr ds \<Rightarrow> ds | _ \<Rightarrow> [])"

section \<open>Configuration\<close>

text \<open>
  What \<^verbatim>\<open>readConfigFiles\<close> hands to \<^verbatim>\<open>mergeConfigs\<close>: the base config and the object that
  maps a language code to that language's config.
\<close>

record configs =
  base :: jsval
  langs :: obj

definition object_keys :: "('k \<times> 'v) list \<Rightarrow> 'k list" where
  "object_keys ob = map fst (AList.clearjunk ob)"

text \<open>The object literal \<^verbatim>\<open>{ ...configs.base, ...langs[lang] }\<close>.\<close>

definition merge_config :: "jsval \<Rightarrow> jsval \<Rightarrow> obj" where
  "merge_config b l = spread (spread [] (own_props b)) (own_props l)"

text \<open>
  \<^verbatim>\<open>mergeConfigs\<close> (core.js, line 173). The accumulator of the \<^verbatim>\<open>reduce\<close> starts as
  \<^verbatim>\<open>baseConfig\<close>, the object \<^verbatim>\<open>{ base }\<close>.
\<close>

definition mergeConfigs :: "configs \<Rightarrow> obj" where
  "mergeConfigs cfgs =
     (let baseConfig = [(''base'', base cfgs)]
      in if langs cfgs = [] then baseConfig
         else foldl (\<lambda>merged lang.
                       AList.update lang
                         (JObj (merge_config (base cfgs) (obj_get (langs cfgs) lang))) merged)
                baseConfig (object_keys (langs cfgs)))"

section \<open>Render context and page generation\<close>

text \<open>
  An entry of the render context is a value of the config or of the document, or a helper
  bound to the context. The helper table maps a name to the helper, of any type \<open>'h\<close>.
\<close>

datatype 'h ctxval = FieldValue jsval | BoundHelper 'h

type_synonym 'h render_context = "(string \<times> 'h ctxval) list"

text \<open>\<^verbatim>\<open>makeContext\<close> (core.js, line 358): \<^verbatim>\<open>{ config, ...document }\<close>, then one assignment per helper.\<close>

definition makeContext :: "obj \<Rightarrow> jsval \<Rightarrow> (string \<times> 'h) list \<Rightarrow> 'h render_context" where
  "makeContext document config helpers =
     (let ctx = spread [(''config'', FieldValue config)] (map (\<lambda>(k, v). (k, FieldValue v)) document)
      in foldl (\<lambda>ctx name.
                  case map_of helpers name of
                    Some h \<Rightarrow> AList.update name (BoundHelper h) ctx
                  | None \<Rightarrow> ctx)
           ctx (object_keys helpers))"

record page =
  pagePath :: string
  content :: string

text \<open>
  \<^verbatim>\<open>generatePage\<close> (core.js, line 381). The two helpers of \<^verbatim>\<open>src/util.js\<close>, the RSS renderer
  and the table of template renderers are parameters. The helpers of \<^verbatim>\<open>util.js\<close> work on
  strings: a truthy \<^verbatim>\<open>sourcePath\<close> or \<^verbatim>\<open>layout\<close> that is not a string is a \<open>TypeError\<close>,
  and so is an empty table of renderers, whose first pair cannot be destructured.
\<close>

definition generatePage ::
  "(string \<Rightarrow> string) \<Rightarrow> (string \<Rightarrow> string) \<Rightarrow> ('h render_context \<Rightarrow> string) \<Rightarrow>
   obj \<Rightarrow> jsval \<Rightarrow> (string \<times> 'h) list \<Rightarrow> (string \<times> (string \<Rightarrow> 'h render_context \<Rightarrow> string)) list \<Rightarrow>
   error + page" where
  "generatePage remove_ext get_ext renderRss document config helpers renderers =
     (if \<not> truthy (js_get document ''sourcePath'') then
        Inl (Error (''Source path not specified. Add '' @ quoted ''sourcePath''
                      @ '' front matter field.''))
      else if \<not> truthy (js_get document ''layout'') then
        Inl (Error (''Layout not specified for '' @ js_to_string (js_get document ''sourcePath'')
                      @ ''. Add '' @ quoted ''layout'' @ '' front matter field.''))
      else
        (case js_get document ''sourcePath'' of
           JStr source_path \<Rightarrow>
             (let page_path = remove_ext source_path;
                  pageContext = makeContext document config helpers
              in if js_get document ''layout'' = JStr ''RSS'' then
                   Inr \<lparr>pagePath = page_path @ ''.xml'', content = renderRss pageContext\<rparr>
                 else
                   (case renderers of
                      [] \<Rightarrow> Inl TypeError
                    | (templateExtension, render) # _ \<Rightarrow>
                        (let templateFile =
                               js_to_string (js_get document ''layout'') @ ''.'' @ templateExtension;
                             rendered = render templateFile pageContext
                         in case js_get document ''layout'' of
                              JStr layout_name \<Rightarrow>
                                (let pageExtension =
                                   (if get_ext layout_name = [] then ''html''
                                    else get_ext layout_name)
                                 in Inr \<lparr>pagePath = page_path @ ''.'' @ pageExtension,
                                         content = rendered\<rparr>)
                            | _ \<Rightarrow> Inl TypeError)))
         | _ \<Rightarrow> Inl TypeError))"

section \<open>Parsing a source file\<close>





text \<open>
  \<^verbatim>\<open>renderers[extension]\<close> when the table has no entry of its own for the extension: the
  members inherited from \<^verbatim>\<open>Object.prototype\<close> are found, and those that are functions are
  called with the source and without a receiver. \<^verbatim>\<open>Object(source)\<close> wraps the source,
  \<^verbatim>\<open>toString\<close> describes its missing receiver, \<^verbatim>\<open>isPrototypeOf\<close> answers \<^verbatim>\<open>false\<close> for a
  string, \<^verbatim>\<open>__proto__\<close> is an object and is not called, and the others raise a \<open>TypeError\<close>
  for the missing receiver.
\<close>

definition inherited_render :: "string \<Rightarrow> string \<Rightarrow> error + jsval" where
  "inherited_render extension source =
     (if extension = ''constructor'' then Inr (JStr source)
      else if extension = ''toString'' then Inr (JStr ''[object Undefined]'')
      else if extension = ''isPrototypeOf'' then Inr (JBool False)
      else if extension = ''__proto__'' then Inr (JStr source)
      else if extension \<in> set object_prototype_members then Inl TypeError
      else Inr (JStr source))"

text \<open>\<^verbatim>\<open>renderByType\<close> (core.js, line 39); \<open>get_ext\<close> is \<^verbatim>\<open>getExtension\<close> of \<^verbatim>\<open>src/util.js\<close>.\<close>

definition renderByType ::
  "(string \<Rightarrow> string) \<Rightarrow> string \<Rightarrow> string \<Rightarrow> (string \<times> (string \<Rightarrow> string)) list \<Rightarrow>
   error + jsval" where
  "renderByType get_ext source filepath renderers =
     (let extension = get_ext filepath
      in case map_of renderers extension of
           Some render \<Rightarrow> Inr (JStr (render source))
         | None \<Rightarrow> inherited_render extension source)"




text \<open>The rendered body of a source, which \<^verbatim>\<open>parsePage\<close> calls \<^verbatim>\<open>content\<close> before trimming it.\<close>

definition rendered_body ::
  "(string \<Rightarrow> obj \<times> string) \<Rightarrow> (string \<Rightarrow> string) \<Rightarrow> string \<Rightarrow> string \<Rightarrow>
   (string \<times> (string \<Rightarrow> string)) list \<Rightarrow> error + jsval" where
  "rendered_body fastmatter get_ext source filepath renderers =
     renderByType get_ext (snd (fastmatter source)) filepath renderers"

text \<open>The position of the first occurrence of a marker in a text, for stating what the split gives.\<close>

fun index_of :: "string \<Rightarrow> string \<Rightarrow> nat option" where
  "index_of t [] = (if t = [] then Some 0 else None)"
| "index_of t (c # cs) =
     (if prefix t (c # cs) then Some 0 else map_option Suc (index_of t cs))"

section \<open>Grouping documents\<close>

text \<open>
  The second argument of \<^verbatim>\<open>groupDocuments\<close>: a field name, or a function from the document to
  the group key.
\<close>

datatype group_field = ByName string | ByFunction "obj \<Rightarrow> jsval"

type_synonym groups = "(string \<times> obj list) list"

text \<open>
  \<^verbatim>\<open>if (!grouped[k]) { grouped[k] = []; } grouped[k].push(document);\<close> on the plain object
  \<^verbatim>\<open>grouped\<close>. When \<open>k\<close> is not an own key but the name of a member inherited from
  \<^verbatim>\<open>Object.prototype\<close>, \<^verbatim>\<open>grouped[k]\<close> is that member: it is truthy, so no array is
  created, and it has no \<^verbatim>\<open>push\<close>, so the call raises a \<open>TypeError\<close>.
\<close>

definition push_group :: "string \<Rightarrow> obj \<Rightarrow> groups \<Rightarrow> error + groups" where
  "push_group k document grouped =
     (case map_of grouped k of
        Some ds \<Rightarrow> Inr (AList.update k (ds @ [document]) grouped)
      | None \<Rightarrow>
          if k \<in> set object_prototype_members then Inl TypeError
          else Inr (AList.update k [document] grouped))"

fun push_each :: "jsval list \<Rightarrow> obj \<Rightarrow> groups \<Rightarrow> error + groups" where
  "push_each [] document grouped = Inr grouped"
| "push_each (subValue # rest) document grouped =
     (case push_group (js_to_string subValue) document grouped of
        Inl e \<Rightarrow> Inl e
      | Inr grouped' \<Rightarrow> push_each rest document grouped')"

text \<open>
  The callback of the \<^verbatim>\<open>reduce\<close> in \<^verbatim>\<open>groupDocuments\<close> (core.js, line 253). With a function
  for \<^verbatim>\<open>field\<close>, \<^verbatim>\<open>document[field]\<close> looks up the source text of the function, which is
  taken not to be a key of the document.
\<close>

definition group_step :: "group_field \<Rightarrow> groups \<Rightarrow> obj \<Rightarrow> error + groups" where
  "group_step field grouped document =
     (let v = (case field of ByName name \<Rightarrow> js_get document name | ByFunction f \<Rightarrow> JUndefined)
      in case v of
           JArr subValues \<Rightarrow> push_each subValues document grouped
         | _ \<Rightarrow>
             (let v' = (case field of ByFunction f \<Rightarrow> f document | ByName name \<Rightarrow> v)
              in if \<not> truthy v' then Inr grouped
                 else push_group (js_to_string v') document grouped))"

fun group_from :: "group_field \<Rightarrow> groups \<Rightarrow> obj list \<Rightarrow> error + groups" where
  "group_from field grouped [] = Inr grouped"
| "group_from field grouped (document # rest) =
     (case group_step field grouped document of
        Inl e \<Rightarrow> Inl e
      | Inr grouped' \<Rightarrow> group_from field grouped' rest)"

definition groupDocuments :: "obj list \<Rightarrow> group_field \<Rightarrow> error + groups" where
  "groupDocuments documents field = group_from field [] documents"

text \<open>
  The grouping in the words of the spec, to compare \<open>groupDocuments\<close> with: the keys under
  which a document belongs (every value of a sequence; the field value or the computed key
  when it is truthy; none otherwise), and the documents found under a key of the result.
\<close>

definition group_keys :: "group_field \<Rightarrow> obj \<Rightarrow> string list" where
  "group_keys field document =
     (case field of
        ByName name \<Rightarrow>
          (case js_get document name of
             JArr subValues \<Rightarrow> map js_to_string subValues
           | v \<Rightarrow> if truthy v then [js_to_string v] else [])
      | ByFunction f \<Rightarrow> if truthy (f document) then [js_to_string (f document)] else [])"

definition group_of :: "groups \<Rightarrow> string \<Rightarrow> obj list" where
  "group_of grouped k = (case map_of grouped k of Some ds \<Rightarrow> ds | None \<Rightarrow> [])"

text \<open>Whether a path contains two slashes in a row.\<close>

fun has_double_slash :: "string \<Rightarrow> bool" where
  "has_double_slash (a # b # cs) =
     ((a = CHR ''/'' \<and> b = CHR ''/'') \<or> has_double_slash (b # cs))"
| "has_double_slash cs = False"

section \<open>Properties of the path helpers\<close>

lemma replace_index_end_no_suffix:
  "\<not> suffix ''/index'' s \<Longrightarrow> replace_index_end s = s"
proof (induction s)
  case Nil
  show ?case by simp
next
  case (Cons c cs)
  have ne: "c # cs \<noteq> ''/index''" using Cons.prems by auto
  have "\<not> suffix ''/index'' cs" using Cons.prems by (simp add: suffix_Cons)
  with Cons.IH ne show ?case by simp
qed

lemma replace_index_end_append:
  "replace_index_end (r @ ''/index'') = r"
proof (induction r)
  case Nil
  show ?case by simp
next
  case (Cons c r)
  have "length ((c # r) @ ''/index'') \<noteq> length ''/index''" by simp
  then have "(c # r) @ ''/index'' \<noteq> ''/index''" by metis
  with Cons.IH show ?case by simp
qed

lemma replace_index_end_eq:
  "replace_index_end s =
     (if suffix ''/index'' s then take (length s - length ''/index'') s else s)"
proof (cases "suffix ''/index'' s")
  case True
  then obtain r where "s = r @ ''/index''" by (auto simp: suffix_def)
  then show ?thesis using True by (simp add: replace_index_end_append)
next
  case False
  then show ?thesis by (simp add: replace_index_end_no_suffix)
qed

text \<open>
  C7. For every file path the URL is \<^verbatim>\<open>/\<close> followed by the path without its extension,
  with a trailing \<^verbatim>\<open>/index\<close> removed, and \<^verbatim>\<open>/\<close> when nothing is left; the three examples
  of the spec evaluate as stated.
\<close>

theorem filepathToUrl_spec:
  "filepathToUrl rx fp =
     (let u = ''/'' @ rx fp;
          t = (if suffix ''/index'' u then take (length u - length ''/index'') u else u)
      in if t = [] then ''/'' else t)
   \<and> filepathToUrl removeExtension ''index.md'' = ''/''
   \<and> filepathToUrl removeExtension ''posts/foo/index.md'' = ''/posts/foo''
   \<and> filepathToUrl removeExtension ''posts/foo.md'' = ''/posts/foo''"
proof -
  have general: "filepathToUrl rx fp =
     (let u = ''/'' @ rx fp;
          t = (if suffix ''/index'' u then take (length u - length ''/index'') u else u)
      in if t = [] then ''/'' else t)"
    by (simp only: filepathToUrl_def Let_def replace_index_end_eq append.simps)
  have e1: "filepathToUrl removeExtension ''index.md'' = ''/''"
    by (simp add: filepathToUrl_def is_word_char_def)
  have e2: "filepathToUrl removeExtension ''posts/foo/index.md'' = ''/posts/foo''"
    by (simp add: filepathToUrl_def is_word_char_def)
  have e3: "filepathToUrl removeExtension ''posts/foo.md'' = ''/posts/foo''"
    by (simp add: filepathToUrl_def is_word_char_def)
  from general e1 e2 e3 show ?thesis by blast
qed

section \<open>Properties of objects and arrays\<close>

lemma map_of_foldl_update:
  "distinct (map fst s) \<Longrightarrow>
   map_of (foldl (\<lambda>acc (k, v). AList.update k v acc) t s) = map_of t ++ map_of s"
proof (induction s arbitrary: t)
  case Nil
  show ?case by simp
next
  case (Cons kv s)
  obtain k v where kv: "kv = (k, v)" by (cases kv)
  from Cons.prems kv have fresh: "map_of s k = None" and dist: "distinct (map fst s)"
    by (auto simp: map_of_eq_None_iff)
  have step: "map_of (AList.update k v t) ++ map_of s = map_of t ++ map_of ((k, v) # s)"
  proof (rule ext)
    fix x
    show "(map_of (AList.update k v t) ++ map_of s) x = (map_of t ++ map_of ((k, v) # s)) x"
      using fresh by (cases "x = k") (auto simp: update_conv' map_add_def split: option.splits)
  qed
  show ?case
    unfolding kv by (simp only: foldl_Cons prod.case Cons.IH [OF dist] step)
qed

lemma map_of_spread: "map_of (spread t s) = map_of t ++ map_of s"
  unfolding spread_def
  by (simp add: map_of_foldl_update distinct_clearjunk map_of_clearjunk)

lemma take_drop_nth: "k \<le> f \<Longrightarrow> f \<le> length xs \<Longrightarrow> take (f - k) (drop k xs) = map ((!) xs) [k..<f]"
proof -
  assume kf: "k \<le> f" and fl: "f \<le> length xs"
  have "take (f - k) (drop k (map ((!) xs) [0..<length xs])) = map ((!) xs) (take (f - k) (drop k [0..<length xs]))"
    by (simp add: take_map drop_map)
  also have "drop k [0..<length xs] = [k..<length xs]" by simp
  also have "take (f - k) [k..<length xs] = [k..<f]" using kf fl by simp
  finally show ?thesis by (simp add: map_nth)
qed

lemma js_slice_page:
  assumes "0 \<le> b" "0 < p"
  shows "js_slice xs b (b + p) = map ((!) xs) [nat b ..< min (nat (b + p)) (length xs)]"
proof (cases "nat b \<le> length xs")
  case True
  have "js_slice xs b (b + p) = take (min (nat (b + p)) (length xs) - nat b) (drop (nat b) xs)"
    using assms True by (simp add: js_slice_def Let_def min_def nat_diff_distrib) 
  also have "\<dots> = map ((!) xs) [nat b ..< min (nat (b + p)) (length xs)]"
    using assms True by (intro take_drop_nth) auto
  finally show ?thesis .
next
  case False
  then show ?thesis using assms by (simp add: js_slice_def Let_def min_def)
qed

lemma upto_as_upt: "0 \<le> n \<Longrightarrow> [0..n - 1] = map int [0..<nat n]"
proof (rule nth_equalityI)
  assume n: "0 \<le> n"
  show len: "length [0..n - 1] = length (map int [0..<nat n])" using n by simp
  fix i assume "i < length [0..n - 1]"
  then have "i < nat n" using len by simp
  then show "[0..n - 1] ! i = map int [0..<nat n] ! i" by (simp add: nth_upto)
qed

lemma lodash_range_nonneg: "0 \<le> n \<Longrightarrow> lodash_range n = map int [0..<nat n]"
  by (simp add: lodash_range_def upto_as_upt)


lemma paginate_page_fields:
  "page_get (paginate_page docs sp up p l ix ex tp i) ''documents''
     = JArr (js_slice docs (i * p) (i * p + p))"
  "page_get (paginate_page docs sp up p l ix ex tp i) ''documentsTotal'' = JNum (int (length docs))"
  "page_get (paginate_page docs sp up p l ix ex tp i) ''url'' = JStr (getPageNumberUrl up (i + 1) False)"
  "page_get (paginate_page docs sp up p l ix ex tp i) ''sourcePath'' = JStr (getPageNumberUrl sp (i + 1) ix)"
  "page_get (paginate_page docs sp up p l ix ex tp i) ''layout'' = JStr l"
  "page_get (paginate_page docs sp up p l ix ex tp i) ''previousUrl''
     = (if i + 1 > 1 then JStr (getPageNumberUrl up i False) else JNull)"
  "page_get (paginate_page docs sp up p l ix ex tp i) ''nextUrl''
     = (if i + 1 < tp then JStr (getPageNumberUrl up (i + 2) False) else JNull)"
  by (simp_all add: paginate_page_def page_get_def obj_get_def map_of_spread Let_def
        map_add_def algebra_simps)

lemma paginate_valid:
  assumes "sourcePathPrefix opts = Some sp" and "urlPrefix opts = Some up"
    and "documentsPerPage opts = Some p" and "0 < p"
    and "layout opts = Some l" and "l \<noteq> []"
  shows "paginate docs opts =
           Inr (map (\<lambda>i. paginate_page docs sp up p l (index opts) (extra opts)
                           \<lceil>real (length docs) / real_of_int p\<rceil> (int i))
                  [0..<nat \<lceil>real (length docs) / real_of_int p\<rceil>])"
proof -
  have "0 \<le> real (length docs) / real_of_int p" using assms(4) by simp
  then have "0 \<le> \<lceil>real (length docs) / real_of_int p\<rceil>" by linarith
  then show ?thesis
    using assms by (simp add: paginate_def Let_def lodash_range_nonneg comp_def)
qed

section \<open>Properties of pagination\<close>

text \<open>
  C6. With the four required options present and a positive \<^verbatim>\<open>documentsPerPage\<close>,
  \<^verbatim>\<open>paginate\<close> returns \<open>\<lceil>count / documentsPerPage\<rceil>\<close> pages; page \<open>n\<close> (counted from 1)
  holds the documents at the positions from \<open>(n - 1) * documentsPerPage\<close> up to, and not
  including, \<open>n * documentsPerPage\<close> (or the end of the input); every page's
  \<^verbatim>\<open>documentsTotal\<close> is the length of the input; \<^verbatim>\<open>previousUrl\<close> is null on the first page and
  \<^verbatim>\<open>nextUrl\<close> on the last, and otherwise they are the URLs of the neighbouring pages; ten
  documents at four per page give pages of 4, 4 and 2 documents.
\<close>

theorem paginate_pages:
  assumes "sourcePathPrefix opts = Some sp" and "urlPrefix opts = Some up"
    and "documentsPerPage opts = Some p" and "0 < p"
    and "layout opts = Some l" and "l \<noteq> []"
  shows "\<exists>pages. paginate docs opts = Inr pages
     \<and> int (length pages) = \<lceil>real (length docs) / real_of_int p\<rceil>
     \<and> (\<forall>n. 1 \<le> n \<and> n \<le> length pages \<longrightarrow>
            page_documents (pages ! (n - 1))
              = map ((!) docs) [(n - 1) * nat p ..< min (n * nat p) (length docs)]
          \<and> page_get (pages ! (n - 1)) ''documentsTotal'' = JNum (int (length docs))
          \<and> page_get (pages ! (n - 1)) ''url'' = JStr (getPageNumberUrl up (int n) False)
          \<and> page_get (pages ! (n - 1)) ''previousUrl''
              = (if n = 1 then JNull else page_get (pages ! (n - 2)) ''url'')
          \<and> page_get (pages ! (n - 1)) ''nextUrl''
              = (if n = length pages then JNull else page_get (pages ! n) ''url''))
     \<and> (length docs = 10 \<and> p = 4 \<longrightarrow> map (length \<circ> page_documents) pages = [4, 4, 2])"
proof -
  define tp where "tp = \<lceil>real (length docs) / real_of_int p\<rceil>"
  define pages where
    "pages = map (\<lambda>i. paginate_page docs sp up p l (index opts) (extra opts) tp (int i)) [0..<nat tp]"
  have tp0: "0 \<le> tp"
  proof -
    have "0 \<le> real (length docs) / real_of_int p" using assms(4) by simp
    then show ?thesis unfolding tp_def by linarith
  qed
  have res: "paginate docs opts = Inr pages"
    unfolding pages_def tp_def by (rule paginate_valid [OF assms])
  have len: "int (length pages) = tp" using tp0 by (simp add: pages_def)
  have nth: "pages ! i = paginate_page docs sp up p l (index opts) (extra opts) tp (int i)"
    if "i < length pages" for i
    using that by (simp add: pages_def)
  have docs_of: "page_documents (pages ! (n - 1))
              = map ((!) docs) [(n - 1) * nat p ..< min (n * nat p) (length docs)]"
    if n: "1 \<le> n" "n \<le> length pages" for n
  proof -
    have i: "n - 1 < length pages" using n by simp
    have b: "nat (int (n - 1) * p) = (n - 1) * nat p"
      using assms(4) by (simp add: nat_mult_distrib)
    have "int (n - 1) * p + p = int n * p" using n by (simp add: algebra_simps of_nat_diff)
    then have e: "nat (int (n - 1) * p + p) = n * nat p"
      using assms(4) by (simp add: nat_mult_distrib)
    have pg: "pages ! (n - 1)
        = paginate_page docs sp up p l (index opts) (extra opts) tp (int (n - 1))"
      by (rule nth [OF i])
    have "page_documents (pages ! (n - 1))
        = js_slice docs (int (n - 1) * p) (int (n - 1) * p + p)"
      unfolding pg page_documents_def paginate_page_fields by simp
    also have "\<dots> = map ((!) docs)
        [nat (int (n - 1) * p) ..< min (nat (int (n - 1) * p + p)) (length docs)]"
      using assms(4) by (intro js_slice_page) simp_all
    finally show ?thesis by (simp only: b e)
  qed
  have fields: "page_get (pages ! (n - 1)) ''documentsTotal'' = JNum (int (length docs))
          \<and> page_get (pages ! (n - 1)) ''url'' = JStr (getPageNumberUrl up (int n) False)
          \<and> page_get (pages ! (n - 1)) ''previousUrl''
              = (if n = 1 then JNull else page_get (pages ! (n - 2)) ''url'')
          \<and> page_get (pages ! (n - 1)) ''nextUrl''
              = (if n = length pages then JNull else page_get (pages ! n) ''url'')"
    if n: "1 \<le> n" "n \<le> length pages" for n
  proof -
    have i: "n - 1 < length pages" using n by simp
    have s: "int (n - 1) + 1 = int n" using n by simp
    have pg: "pages ! (n - 1)
        = paginate_page docs sp up p l (index opts) (extra opts) tp (int (n - 1))"
      by (rule nth [OF i])
    have total: "page_get (pages ! (n - 1)) ''documentsTotal'' = JNum (int (length docs))"
      unfolding pg paginate_page_fields by simp
    have url: "page_get (pages ! (n - 1)) ''url'' = JStr (getPageNumberUrl up (int n) False)"
      unfolding pg paginate_page_fields s by simp
    have prev: "page_get (pages ! (n - 1)) ''previousUrl''
              = (if n = 1 then JNull else page_get (pages ! (n - 2)) ''url'')"
    proof (cases "n = 1")
      case True
      have "\<not> 1 < int n" using True by simp
      then show ?thesis unfolding pg paginate_page_fields s using True by simp
    next
      case False
      then have j: "n - 2 < length pages" and t: "int (n - 2) + 1 = int (n - 1)" and g: "1 < int n"
        using n by auto
      have pj: "pages ! (n - 2)
          = paginate_page docs sp up p l (index opts) (extra opts) tp (int (n - 2))"
        by (rule nth [OF j])
      show ?thesis
        unfolding pg pj paginate_page_fields s t using False g by simp
    qed
    have nxt: "page_get (pages ! (n - 1)) ''nextUrl''
              = (if n = length pages then JNull else page_get (pages ! n) ''url'')"
    proof (cases "n = length pages")
      case True
      then have "\<not> int n < tp" using len by simp
      then show ?thesis unfolding pg paginate_page_fields s using True by simp
    next
      case False
      then have j: "n < length pages" using n by simp
      then have lt: "int n < tp" using len by linarith
      have u: "int (n - 1) + 2 = int n + 1" using n by simp
      have pn: "pages ! n
          = paginate_page docs sp up p l (index opts) (extra opts) tp (int n)"
        by (rule nth [OF j])
      show ?thesis
        unfolding pg pn paginate_page_fields s u using False lt by simp
    qed
    from total url prev nxt show ?thesis by blast
  qed
  have example: "map (length \<circ> page_documents) pages = [4, 4, 2]"
    if ex: "length docs = 10 \<and> p = 4"
  proof -
    have "tp = 3" using ex by (simp add: tp_def)
    then have l3: "length pages = 3" using len by simp
    have d1: "length (page_documents (pages ! (1 - 1))) = 4"
      using ex l3 by (subst docs_of) simp_all
    have d2: "length (page_documents (pages ! (2 - 1))) = 4"
      using ex l3 by (subst docs_of) simp_all
    have d3: "length (page_documents (pages ! (3 - 1))) = 2"
      using ex l3 by (subst docs_of) simp_all
    show ?thesis
    proof (rule nth_equalityI)
      show "length (map (length \<circ> page_documents) pages) = length [4, 4, 2 :: nat]"
        using l3 by simp
      fix i assume "i < length (map (length \<circ> page_documents) pages)"
      then have "i = 0 \<or> i = 1 \<or> i = 2" using l3 by auto
      then show "map (length \<circ> page_documents) pages ! i = [4, 4, 2] ! i"
        using d1 d2 d3 l3 by auto
    qed
  qed
  have len': "int (length pages) = \<lceil>real (length docs) / real_of_int p\<rceil>"
    using len by (simp only: tp_def)
  have every: "\<forall>n. 1 \<le> n \<and> n \<le> length pages \<longrightarrow>
            page_documents (pages ! (n - 1))
              = map ((!) docs) [(n - 1) * nat p ..< min (n * nat p) (length docs)]
          \<and> page_get (pages ! (n - 1)) ''documentsTotal'' = JNum (int (length docs))
          \<and> page_get (pages ! (n - 1)) ''url'' = JStr (getPageNumberUrl up (int n) False)
          \<and> page_get (pages ! (n - 1)) ''previousUrl''
              = (if n = 1 then JNull else page_get (pages ! (n - 2)) ''url'')
          \<and> page_get (pages ! (n - 1)) ''nextUrl''
              = (if n = length pages then JNull else page_get (pages ! n) ''url'')"
  proof (intro allI impI)
    fix n assume "1 \<le> n \<and> n \<le> length pages"
    then have n: "1 \<le> n" "n \<le> length pages" by simp_all
    show "page_documents (pages ! (n - 1))
              = map ((!) docs) [(n - 1) * nat p ..< min (n * nat p) (length docs)]
          \<and> page_get (pages ! (n - 1)) ''documentsTotal'' = JNum (int (length docs))
          \<and> page_get (pages ! (n - 1)) ''url'' = JStr (getPageNumberUrl up (int n) False)
          \<and> page_get (pages ! (n - 1)) ''previousUrl''
              = (if n = 1 then JNull else page_get (pages ! (n - 2)) ''url'')
          \<and> page_get (pages ! (n - 1)) ''nextUrl''
              = (if n = length pages then JNull else page_get (pages ! n) ''url'')"
      by (rule conjI [OF docs_of [OF n] fields [OF n]])
  qed
  have sizes: "length docs = 10 \<and> p = 4 \<longrightarrow> map (length \<circ> page_documents) pages = [4, 4, 2]"
    by (rule impI) (rule example)
  show ?thesis
    by (rule exI [of _ pages]) (intro conjI res len' every sizes)
qed



theorem paginate_pages_witness:
  "\<exists>pages.
     paginate (map JNum [1, 2, 3, 4, 5, 6, 7, 8, 9, 10])
       \<lparr>sourcePathPrefix = Some ''all'', urlPrefix = Some ''/all'', documentsPerPage = Some 4,
        layout = Some ''list'', index = True, extra = []\<rparr> = Inr pages
     \<and> length pages = 3
     \<and> map (length \<circ> page_documents) pages = [4, 4, 2]
     \<and> page_documents (pages ! 2) = [JNum 9, JNum 10]
     \<and> page_get (pages ! 0) ''previousUrl'' = JNull
     \<and> page_get (pages ! 2) ''nextUrl'' = JNull
     \<and> page_get (pages ! 2) ''documentsTotal'' = JNum 10"
proof -
  let ?docs = "map JNum [1, 2, 3, 4, 5, 6, 7, 8, 9, 10]"
  let ?opts = "\<lparr>sourcePathPrefix = Some ''all'', urlPrefix = Some ''/all'',
                documentsPerPage = Some 4, layout = Some ''list'', index = True, extra = []\<rparr>"
  have "\<exists>pages. paginate ?docs ?opts = Inr pages
     \<and> int (length pages) = \<lceil>real (length ?docs) / real_of_int 4\<rceil>
     \<and> (\<forall>n. 1 \<le> n \<and> n \<le> length pages \<longrightarrow>
            page_documents (pages ! (n - 1))
              = map ((!) ?docs) [(n - 1) * nat 4 ..< min (n * nat 4) (length ?docs)]
          \<and> page_get (pages ! (n - 1)) ''documentsTotal'' = JNum (int (length ?docs))
          \<and> page_get (pages ! (n - 1)) ''url'' = JStr (getPageNumberUrl ''/all'' (int n) False)
          \<and> page_get (pages ! (n - 1)) ''previousUrl''
              = (if n = 1 then JNull else page_get (pages ! (n - 2)) ''url'')
          \<and> page_get (pages ! (n - 1)) ''nextUrl''
              = (if n = length pages then JNull else page_get (pages ! n) ''url''))
     \<and> (length ?docs = 10 \<and> (4::int) = 4 \<longrightarrow> map (length \<circ> page_documents) pages = [4, 4, 2])"
    by (rule paginate_pages [where l = "''list''"]) simp_all
  then show ?thesis
  proof (elim exE conjE)
    fix pages
    assume res: "paginate ?docs ?opts = Inr pages"
      and len: "int (length pages) = \<lceil>real (length ?docs) / real_of_int 4\<rceil>"
      and every: "\<forall>n. 1 \<le> n \<and> n \<le> length pages \<longrightarrow>
            page_documents (pages ! (n - 1))
              = map ((!) ?docs) [(n - 1) * nat 4 ..< min (n * nat 4) (length ?docs)]
          \<and> page_get (pages ! (n - 1)) ''documentsTotal'' = JNum (int (length ?docs))
          \<and> page_get (pages ! (n - 1)) ''url'' = JStr (getPageNumberUrl ''/all'' (int n) False)
          \<and> page_get (pages ! (n - 1)) ''previousUrl''
              = (if n = 1 then JNull else page_get (pages ! (n - 2)) ''url'')
          \<and> page_get (pages ! (n - 1)) ''nextUrl''
              = (if n = length pages then JNull else page_get (pages ! n) ''url'')"
      and sizes: "length ?docs = 10 \<and> (4::int) = 4 \<longrightarrow>
          map (length \<circ> page_documents) pages = [4, 4, 2]"
    have l3: "length pages = 3" using len by simp
    have s: "map (length \<circ> page_documents) pages = [4, 4, 2]" using sizes by simp
    have first: "page_get (pages ! 0) ''previousUrl'' = JNull"
      using every [rule_format, of 1] l3 by simp
    have r: "[8..<10] = [8, 9::nat]" by (simp add: upt_rec)
    have last: "page_documents (pages ! 2) = [JNum 9, JNum 10]"
      "page_get (pages ! 2) ''nextUrl'' = JNull"
      "page_get (pages ! 2) ''documentsTotal'' = JNum 10"
      using every [rule_format, of 3] l3 r by simp_all
    show ?thesis
      by (rule exI [of _ pages]) (intro conjI res l3 s first last)
  qed
qed


text \<open>
  C8. If one of \<^verbatim>\<open>sourcePathPrefix\<close>, \<^verbatim>\<open>urlPrefix\<close>, \<^verbatim>\<open>documentsPerPage\<close> and
  \<^verbatim>\<open>layout\<close> is absent, \<^verbatim>\<open>paginate\<close> raises an error and returns no pages. The error
  names the absent option when the options checked before it are usable, and in every case
  it names one of the four required options: nothing is given a default.
\<close>

theorem paginate_missing_option:
  "(sourcePathPrefix opts = None \<longrightarrow>
      paginate docs opts = Inl (not_specified ''sourcePathPrefix''))
   \<and> (sourcePathPrefix opts \<noteq> None \<and> urlPrefix opts = None \<longrightarrow>
      paginate docs opts = Inl (not_specified ''urlPrefix''))
   \<and> (sourcePathPrefix opts \<noteq> None \<and> urlPrefix opts \<noteq> None \<and> documentsPerPage opts = None \<longrightarrow>
      paginate docs opts = Inl (not_specified ''documentsPerPage''))
   \<and> (sourcePathPrefix opts \<noteq> None \<and> urlPrefix opts \<noteq> None
        \<and> documentsPerPage opts \<noteq> None \<and> documentsPerPage opts \<noteq> Some 0
        \<and> layout opts = None \<longrightarrow>
      paginate docs opts = Inl (not_specified ''layout''))
   \<and> (sourcePathPrefix opts = None \<or> urlPrefix opts = None
        \<or> documentsPerPage opts = None \<or> layout opts = None \<longrightarrow>
      (\<exists>name \<in> {''sourcePathPrefix'', ''urlPrefix'', ''documentsPerPage'', ''layout''}.
         paginate docs opts = Inl (not_specified name)))"
  by (auto simp: paginate_def split: option.splits)

theorem paginate_missing_option_witness:
  "paginate [JNum 1] \<lparr>sourcePathPrefix = None, urlPrefix = Some ''/all'',
       documentsPerPage = Some 4, layout = Some ''list'', index = False, extra = []\<rparr>
     = Inl (Error (CHR 0x22 # ''sourcePathPrefix'' @ CHR 0x22 # '' not specified for paginate().''))
   \<and> paginate [JNum 1] \<lparr>sourcePathPrefix = Some ''all'', urlPrefix = None,
       documentsPerPage = Some 4, layout = Some ''list'', index = False, extra = []\<rparr>
     = Inl (Error (CHR 0x22 # ''urlPrefix'' @ CHR 0x22 # '' not specified for paginate().''))
   \<and> paginate [JNum 1] \<lparr>sourcePathPrefix = Some ''all'', urlPrefix = Some ''/all'',
       documentsPerPage = None, layout = Some ''list'', index = False, extra = []\<rparr>
     = Inl (Error (CHR 0x22 # ''documentsPerPage'' @ CHR 0x22 # '' not specified for paginate().''))
   \<and> paginate [JNum 1] \<lparr>sourcePathPrefix = Some ''all'', urlPrefix = Some ''/all'',
       documentsPerPage = Some 4, layout = None, index = False, extra = []\<rparr>
     = Inl (Error (CHR 0x22 # ''layout'' @ CHR 0x22 # '' not specified for paginate().''))"
proof -
  let ?o1 = "\<lparr>sourcePathPrefix = None, urlPrefix = Some ''/all'',
       documentsPerPage = Some 4, layout = Some ''list'', index = False, extra = []\<rparr>"
  let ?o2 = "\<lparr>sourcePathPrefix = Some ''all'', urlPrefix = None,
       documentsPerPage = Some 4, layout = Some ''list'', index = False, extra = []\<rparr>"
  let ?o3 = "\<lparr>sourcePathPrefix = Some ''all'', urlPrefix = Some ''/all'',
       documentsPerPage = None, layout = Some ''list'', index = False, extra = []\<rparr>"
  let ?o4 = "\<lparr>sourcePathPrefix = Some ''all'', urlPrefix = Some ''/all'',
       documentsPerPage = Some 4, layout = None, index = False, extra = []\<rparr>"
  have a: "paginate [JNum 1] ?o1 = Inl (not_specified ''sourcePathPrefix'')"
    using paginate_missing_option [of ?o1 "[JNum 1]"] by simp
  have b: "paginate [JNum 1] ?o2 = Inl (not_specified ''urlPrefix'')"
    using paginate_missing_option [of ?o2 "[JNum 1]"] by simp
  have c: "paginate [JNum 1] ?o3 = Inl (not_specified ''documentsPerPage'')"
    using paginate_missing_option [of ?o3 "[JNum 1]"] by simp
  have d: "paginate [JNum 1] ?o4 = Inl (not_specified ''layout'')"
    using paginate_missing_option [of ?o4 "[JNum 1]"] by simp
  from a b c d show ?thesis by (simp add: not_specified_def quoted_def)
qed


text \<open>
  A prefix without a double slash gives a path without one: the single double slash that the
  join can produce is the leftmost one, and it is collapsed.
\<close>

lemma replace_double_slash_head:
  "\<exists>r. replace_double_slash (x # xs) = x # r"
  by (cases xs) auto

lemma no_slash_no_double: "CHR ''/'' \<notin> set s \<Longrightarrow> \<not> has_double_slash (x # s)"
  by (induction s arbitrary: x) auto

lemma replace_double_slash_none:
  "\<not> has_double_slash s \<Longrightarrow> replace_double_slash s = s"
  by (induction s rule: has_double_slash.induct) auto

lemma replace_double_slash_join:
  "\<not> has_double_slash p \<Longrightarrow> \<not> has_double_slash s \<Longrightarrow>
   \<not> has_double_slash (replace_double_slash (p @ s))"
proof (induction p)
  case Nil
  then show ?case by (simp add: replace_double_slash_none)
next
  case (Cons a p)
  note prems = Cons.prems and IH = Cons.IH
  show ?case
  proof (cases p)
    case Nil
    then show ?thesis using prems by (cases s) (auto simp: replace_double_slash_none)
  next
    case (Cons b cs)
    from prems(1) have ab: "\<not> (a = CHR ''/'' \<and> b = CHR ''/'')" and rest: "\<not> has_double_slash p"
      using Cons by auto
    from IH [OF rest prems(2)]
    have ih: "\<not> has_double_slash (replace_double_slash (p @ s))" .
    obtain r where r: "replace_double_slash (b # cs @ s) = b # r"
      using replace_double_slash_head by blast
    show ?thesis using ab ih r Cons by auto
  qed
qed

lemma nat_to_string_no_slash: "CHR ''/'' \<notin> set (nat_to_string n)"
proof (induction n rule: nat_to_string.induct)
  case (1 n)
  have d: "CHR ''/'' \<noteq> digit_char k" if "k < 10" for k
  proof -
    from that have "k \<in> {0, 1, 2, 3, 4, 5, 6, 7, 8, 9}" by auto
    then show ?thesis by (auto simp: digit_char_def)
  qed
  show ?case
  proof (cases "n < 10")
    case True
    then show ?thesis by (subst nat_to_string.simps) (simp add: d)
  next
    case False
    then show ?thesis using "1.IH" by (subst nat_to_string.simps) (simp add: d)
  qed
qed

lemma getPageNumberUrl_clean_prefix:
  assumes "\<not> has_double_slash url_prefix"
  shows "\<not> has_double_slash (getPageNumberUrl url_prefix n idx)"
proof -
  have i: "\<not> has_double_slash ''/index''" by simp
  have "CHR ''/'' \<notin> set (num_to_string n)"
    by (simp add: num_to_string_def nat_to_string_no_slash)
  then have "\<not> has_double_slash (CHR ''/'' # num_to_string n)" by (rule no_slash_no_double)
  then have p: "\<not> has_double_slash (''/page/'' @ num_to_string n)" by simp
  have e: "\<not> has_double_slash []" by simp
  show ?thesis
    using replace_double_slash_join [OF assms i] replace_double_slash_join [OF assms p]
      replace_double_slash_join [OF assms e]
    by (simp add: getPageNumberUrl_def)
qed

text \<open>
  C4. The double slash left by joining prefix and suffix is not always collapsed: only the
  leftmost double slash of the joined string is replaced. With a prefix that already contains a
  double slash, the one at the join stays.
\<close>

theorem getPageNumberUrl_leftmost_only:
  "getPageNumberUrl ''http://example.com/'' 2 False = ''http:/example.com//page/2''
   \<and> getPageNumberUrl ''a//b/'' 2 False = ''a/b//page/2''"
  by (simp add: getPageNumberUrl_def num_to_string_def nat_to_string.simps digit_char_def)

section \<open>Properties of the configuration merge\<close>

lemma set_object_keys: "set (object_keys ob) = fst ` set ob"
  using clearjunk_keys_set [of ob] by (simp add: object_keys_def)

lemma map_of_foldl_assign:
  "map_of (foldl (\<lambda>m k. AList.update k (f k) m) init ks) x
     = (if x \<in> set ks then Some (f x) else map_of init x)"
proof (induction ks arbitrary: init)
  case Nil
  show ?case by simp
next
  case (Cons k ks)
  show ?case by (simp add: Cons.IH update_conv')
qed

lemma distinct_foldl_assign:
  "distinct (map fst init) \<Longrightarrow>
   distinct (map fst (foldl (\<lambda>m k. AList.update k (f k) m) init ks))"
  by (induction ks arbitrary: init) (simp_all add: distinct_update)

lemma keys_foldl_assign:
  "fst ` set (foldl (\<lambda>m k. AList.update k (f k) m) init ks) = fst ` set init \<union> set ks"
proof -
  have "dom (map_of (foldl (\<lambda>m k. AList.update k (f k) m) init ks)) = dom (map_of init) \<union> set ks"
    by (auto simp: map_of_foldl_assign dom_def split: if_splits)
  then show ?thesis by (simp add: dom_map_of_conv_image_fst)
qed

lemma obj_get_Some: "map_of ob k = Some v \<Longrightarrow> obj_get ob k = v"
  by (simp add: obj_get_def)

text \<open>
  C1, as stated, fails: with a language config present, the result still has the top-level key
  \<^verbatim>\<open>base\<close> next to the language key.
\<close>

theorem mergeConfigs_keeps_base_key:
  "mergeConfigs \<lparr>base = JObj [(''a'', JNum 1), (''b'', JNum 2)],
                  langs = [(''en'', JObj [(''b'', JNum 3)])]\<rparr>
     = [(''base'', JObj [(''a'', JNum 1), (''b'', JNum 2)]),
        (''en'', JObj [(''a'', JNum 1), (''b'', JNum 3)])]"
  by (simp add: mergeConfigs_def object_keys_def merge_config_def spread_def own_props_def
        obj_get_def)

text \<open>
  C1, amended. Without language configs the result is the single-key object that holds the base
  config. With language configs the result has one key per language code, each holding the
  merge of the base config and that language's config, and it also keeps the top-level key
  \<^verbatim>\<open>base\<close>, which holds the base config unless a language is itself called \<^verbatim>\<open>base\<close>.
\<close>

theorem mergeConfigs_shape:
  "(langs c = [] \<longrightarrow> mergeConfigs c = [(''base'', base c)])
   \<and> (langs c \<noteq> [] \<longrightarrow>
        set (object_keys (mergeConfigs c)) = insert ''base'' (set (object_keys (langs c)))
      \<and> distinct (map fst (mergeConfigs c))
      \<and> (\<forall>lang l. map_of (langs c) lang = Some l \<longrightarrow>
            map_of (mergeConfigs c) lang = Some (JObj (merge_config (base c) l)))
      \<and> (''base'' \<notin> set (object_keys (langs c)) \<longrightarrow>
            map_of (mergeConfigs c) ''base'' = Some (base c)))"
proof (intro conjI impI allI)
  assume "langs c = []"
  then show "mergeConfigs c = [(''base'', base c)]" by (simp add: mergeConfigs_def)
next
  assume ne: "langs c \<noteq> []"
  show "set (object_keys (mergeConfigs c)) = insert ''base'' (set (object_keys (langs c)))"
    using ne by (simp add: set_object_keys mergeConfigs_def keys_foldl_assign)
next
  assume ne: "langs c \<noteq> []"
  show "distinct (map fst (mergeConfigs c))"
    using ne by (simp add: mergeConfigs_def distinct_foldl_assign)
next
  fix lang l
  assume ne: "langs c \<noteq> []" and l: "map_of (langs c) lang = Some l"
  from l have "lang \<in> fst ` set (langs c)" by (metis map_of_eq_None_iff option.distinct(1))
  then have "lang \<in> set (object_keys (langs c))" by (simp add: set_object_keys)
  then show "map_of (mergeConfigs c) lang = Some (JObj (merge_config (base c) l))"
    using ne by (simp add: mergeConfigs_def map_of_foldl_assign obj_get_Some [OF l])
next
  assume ne: "langs c \<noteq> []" and nb: "''base'' \<notin> set (object_keys (langs c))"
  then show "map_of (mergeConfigs c) ''base'' = Some (base c)"
    by (simp add: mergeConfigs_def map_of_foldl_assign)
qed


theorem mergeConfigs_shape_witness:
  "mergeConfigs \<lparr>base = JObj [(''title'', JStr ''Blog'')], langs = []\<rparr>
     = [(''base'', JObj [(''title'', JStr ''Blog'')])]
   \<and> set (object_keys (mergeConfigs \<lparr>base = JObj [(''title'', JStr ''Blog'')],
                                        langs = [(''ru'', JObj [(''title'', JStr ''Blog-ru'')])]\<rparr>))
       = {''base'', ''ru''}
   \<and> map_of (mergeConfigs \<lparr>base = JObj [(''title'', JStr ''Blog'')],
                            langs = [(''ru'', JObj [(''title'', JStr ''Blog-ru'')])]\<rparr>) ''ru''
       = Some (JObj [(''title'', JStr ''Blog-ru'')])
   \<and> map_of (mergeConfigs \<lparr>base = JObj [(''title'', JStr ''Blog'')],
                            langs = [(''ru'', JObj [(''title'', JStr ''Blog-ru'')])]\<rparr>) ''base''
       = Some (JObj [(''title'', JStr ''Blog'')])"
proof -
  let ?b = "JObj [(''title'', JStr ''Blog'')]"
  let ?l = "JObj [(''title'', JStr ''Blog-ru'')]"
  have m: "merge_config ?b ?l = [(''title'', JStr ''Blog-ru'')]"
    by (simp add: merge_config_def spread_def own_props_def)
  have k: "object_keys [(''ru'', ?l)] = [''ru'']" by (simp add: object_keys_def)
  have a: "mergeConfigs \<lparr>base = ?b, langs = []\<rparr> = [(''base'', ?b)]"
    using mergeConfigs_shape [of "\<lparr>base = ?b, langs = []\<rparr>"] by simp
  have b: "set (object_keys (mergeConfigs \<lparr>base = ?b, langs = [(''ru'', ?l)]\<rparr>)) = {''base'', ''ru''}"
    "map_of (mergeConfigs \<lparr>base = ?b, langs = [(''ru'', ?l)]\<rparr>) ''ru'' = Some (JObj [(''title'', JStr ''Blog-ru'')])"
    "map_of (mergeConfigs \<lparr>base = ?b, langs = [(''ru'', ?l)]\<rparr>) ''base'' = Some ?b"
    using mergeConfigs_shape [of "\<lparr>base = ?b, langs = [(''ru'', ?l)]\<rparr>"] m k by simp_all
  from a b show ?thesis by (intro conjI)
qed

text \<open>
  C2, as stated, fails: a nested mapping of the language config replaces the nested mapping of
  the base config as a whole; the key \<^verbatim>\<open>home\<close> of the base menu is lost.
\<close>

theorem mergeConfigs_nested_replaced:
  "mergeConfigs
     \<lparr>base = JObj [(''menu'', JObj [(''home'', JStr ''Home''), (''about'', JStr ''About'')]),
                   (''tags'', JArr [JStr ''a'', JStr ''b''])],
      langs = [(''ru'', JObj [(''menu'', JObj [(''about'', JStr ''O nas'')])])]\<rparr>
   = [(''base'', JObj [(''menu'', JObj [(''home'', JStr ''Home''), (''about'', JStr ''About'')]),
                      (''tags'', JArr [JStr ''a'', JStr ''b''])]),
      (''ru'', JObj [(''menu'', JObj [(''about'', JStr ''O nas'')]),
                    (''tags'', JArr [JStr ''a'', JStr ''b''])])]"
  by (simp add: mergeConfigs_def object_keys_def merge_config_def spread_def own_props_def
        obj_get_def)

text \<open>
  C2, amended. The merge is right-biased and shallow: under every top-level key the merged
  config holds the language's value when the language config has that key, whatever the value
  is (a nested mapping and an array alike are taken whole), and the base value otherwise.
\<close>

theorem merge_config_shallow:
  "map_of (merge_config b l) k
     = (case map_of (own_props l) k of Some v \<Rightarrow> Some v | None \<Rightarrow> map_of (own_props b) k)
   \<and> (map_of (langs c) lang = Some l \<longrightarrow>
        map_of (mergeConfigs c) lang = Some (JObj (merge_config (base c) l)))"
proof
  show "map_of (merge_config b l) k
     = (case map_of (own_props l) k of Some v \<Rightarrow> Some v | None \<Rightarrow> map_of (own_props b) k)"
    by (simp add: merge_config_def map_of_spread map_add_def)
next
  show "map_of (langs c) lang = Some l \<longrightarrow>
        map_of (mergeConfigs c) lang = Some (JObj (merge_config (base c) l))"
  proof
    assume l: "map_of (langs c) lang = Some l"
    then have ne: "langs c \<noteq> []" by auto
    from l have "lang \<in> fst ` set (langs c)" by (metis map_of_eq_None_iff option.distinct(1))
    then have "lang \<in> set (object_keys (langs c))" by (simp add: set_object_keys)
    then show "map_of (mergeConfigs c) lang = Some (JObj (merge_config (base c) l))"
      using ne by (simp add: mergeConfigs_def map_of_foldl_assign obj_get_Some [OF l])
  qed
qed

theorem merge_config_shallow_witness:
  "map_of (mergeConfigs \<lparr>base = JObj [(''a'', JNum 1), (''b'', JNum 2)],
                         langs = [(''en'', JObj [(''b'', JNum 3)])]\<rparr>) ''en''
     = Some (JObj (merge_config (JObj [(''a'', JNum 1), (''b'', JNum 2)]) (JObj [(''b'', JNum 3)])))
   \<and> map_of (merge_config (JObj [(''a'', JNum 1), (''b'', JNum 2)]) (JObj [(''b'', JNum 3)])) ''b''
     = Some (JNum 3)
   \<and> map_of (merge_config (JObj [(''a'', JNum 1), (''b'', JNum 2)]) (JObj [(''b'', JNum 3)])) ''a''
     = Some (JNum 1)"
proof -
  let ?b = "JObj [(''a'', JNum 1), (''b'', JNum 2)]"
  let ?l = "JObj [(''b'', JNum 3)]"
  let ?c = "\<lparr>base = ?b, langs = [(''en'', ?l)]\<rparr>"
  have a: "map_of (mergeConfigs ?c) ''en'' = Some (JObj (merge_config ?b ?l))"
    using merge_config_shallow [of ?b ?l "''b''" ?c "''en''"] by simp
  have b: "map_of (merge_config ?b ?l) ''b'' = Some (JNum 3)"
    using merge_config_shallow [of ?b ?l "''b''" ?c "''en''"] by (simp add: own_props_def)
  have c: "map_of (merge_config ?b ?l) ''a'' = Some (JNum 1)"
    using merge_config_shallow [of ?b ?l "''a''" ?c "''en''"] by (simp add: own_props_def)
  from a b c show ?thesis by (intro conjI)
qed

section \<open>Properties of the render context and of page generation\<close>

lemma map_of_foldl_helpers:
  "map_of (foldl (\<lambda>m k. case g k of Some h \<Rightarrow> AList.update k (F k h) m | None \<Rightarrow> m) init ks) x
     = (if x \<in> set ks then (case g x of Some h \<Rightarrow> Some (F x h) | None \<Rightarrow> map_of init x)
        else map_of init x)"
proof (induction ks arbitrary: init)
  case Nil
  show ?case by simp
next
  case (Cons k ks)
  show ?case by (cases "g k") (auto simp: Cons.IH update_conv' split: option.splits)
qed

lemma map_of_field_values:
  "map_of (map (\<lambda>(k, v). (k, f v)) xs) k = map_option f (map_of xs k)"
  by (induction xs) auto

text \<open>
  C10, as stated, fails: a document field named \<^verbatim>\<open>config\<close> is exposed by the context (it is
  the site config that is hidden).
\<close>

theorem makeContext_document_config_exposed:
  "makeContext [(''config'', JStr ''mine''), (''title'', JStr ''Post'')]
     (JObj [(''title'', JStr ''Site'')]) ([] :: (string \<times> unit) list)
   = [(''config'', FieldValue (JStr ''mine'')), (''title'', FieldValue (JStr ''Post''))]"
  by (simp add: makeContext_def spread_def object_keys_def)

text \<open>
  C10, amended. Under every name the context holds the bound helper of that name if there is
  one; otherwise the document's field of that name if there is one; otherwise, under the name
  \<^verbatim>\<open>config\<close>, the site config. So a document field that shares its name with a helper is not
  exposed, and a document field named \<^verbatim>\<open>config\<close> is exposed in place of the site config.
\<close>

theorem makeContext_precedence:
  "map_of (makeContext document config helpers) name
     = (case map_of helpers name of
          Some h \<Rightarrow> Some (BoundHelper h)
        | None \<Rightarrow>
            (case map_of document name of
               Some v \<Rightarrow> Some (FieldValue v)
             | None \<Rightarrow> if name = ''config'' then Some (FieldValue config) else None))"
proof (cases "map_of helpers name")
  case None
  then show ?thesis
    by (simp add: makeContext_def map_of_foldl_helpers map_of_spread map_add_def
          map_of_field_values split: option.splits)
next
  case (Some h)
  then have "name \<in> fst ` set helpers" by (metis map_of_eq_None_iff option.distinct(1))
  then have "name \<in> set (object_keys helpers)" by (simp add: set_object_keys)
  then show ?thesis using Some by (simp add: makeContext_def map_of_foldl_helpers)
qed

text \<open>
  C9. A document without \<^verbatim>\<open>sourcePath\<close> is refused with an error, and so is a document
  without \<^verbatim>\<open>layout\<close>, whose error message names the document's source path. A document
  that supplies both never raises such an error, and it is rendered when its two fields are
  strings and a template renderer is there (or its layout is \<^verbatim>\<open>RSS\<close>).
\<close>

theorem generatePage_requirements:
  "(\<not> truthy (js_get document ''sourcePath'') \<longrightarrow>
      generatePage rx gx rss document config helpers renderers
        = Inl (Error (''Source path not specified. Add '' @ quoted ''sourcePath''
                        @ '' front matter field.'')))
   \<and> (js_get document ''sourcePath'' = JStr sp \<and> sp \<noteq> []
        \<and> \<not> truthy (js_get document ''layout'') \<longrightarrow>
      generatePage rx gx rss document config helpers renderers
        = Inl (Error (''Layout not specified for '' @ sp
                        @ ''. Add '' @ quoted ''layout'' @ '' front matter field.'')))
   \<and> (truthy (js_get document ''sourcePath'') \<and> truthy (js_get document ''layout'') \<longrightarrow>
      (\<forall>msg. generatePage rx gx rss document config helpers renderers \<noteq> Inl (Error msg)))
   \<and> (js_get document ''sourcePath'' = JStr sp \<and> sp \<noteq> []
        \<and> js_get document ''layout'' = JStr l \<and> l \<noteq> []
        \<and> (l = ''RSS'' \<or> renderers \<noteq> []) \<longrightarrow>
      (\<exists>pg. generatePage rx gx rss document config helpers renderers = Inr pg
            \<and> pagePath pg = rx sp @ ''.''
                 @ (if l = ''RSS'' then ''xml'' else if gx l = [] then ''html'' else gx l)))"
proof (intro conjI impI)
  assume "\<not> truthy (js_get document ''sourcePath'')"
  then show "generatePage rx gx rss document config helpers renderers
        = Inl (Error (''Source path not specified. Add '' @ quoted ''sourcePath''
                        @ '' front matter field.''))"
    by (simp add: generatePage_def)
next
  assume "js_get document ''sourcePath'' = JStr sp \<and> sp \<noteq> []
        \<and> \<not> truthy (js_get document ''layout'')"
  then show "generatePage rx gx rss document config helpers renderers
        = Inl (Error (''Layout not specified for '' @ sp
                        @ ''. Add '' @ quoted ''layout'' @ '' front matter field.''))"
    by (simp add: generatePage_def)
next
  assume "truthy (js_get document ''sourcePath'') \<and> truthy (js_get document ''layout'')"
  then show "\<forall>msg. generatePage rx gx rss document config helpers renderers \<noteq> Inl (Error msg)"
    by (auto simp: generatePage_def Let_def split: jsval.splits list.splits prod.splits)
next
  assume a: "js_get document ''sourcePath'' = JStr sp \<and> sp \<noteq> []
        \<and> js_get document ''layout'' = JStr l \<and> l \<noteq> []
        \<and> (l = ''RSS'' \<or> renderers \<noteq> [])"
  show "\<exists>pg. generatePage rx gx rss document config helpers renderers = Inr pg
            \<and> pagePath pg = rx sp @ ''.''
                 @ (if l = ''RSS'' then ''xml'' else if gx l = [] then ''html'' else gx l)"
  proof (cases "l = ''RSS''")
    case True
    then show ?thesis using a by (simp add: generatePage_def Let_def)
  next
    case False
    with a obtain ext render rest where r: "renderers = (ext, render) # rest"
      by (cases renderers) auto
    show ?thesis using a False r by (simp add: generatePage_def Let_def)
  qed
qed

theorem generatePage_requirements_witness:
  "generatePage removeExtension (\<lambda>s. []) (\<lambda>c. ''<rss/>'') [(''layout'', JStr ''Post'')] JNull
       ([] :: (string \<times> unit) list) [(''jsx'', \<lambda>f c. f)]
     = Inl (Error (''Source path not specified. Add '' @ CHR 0x22 # ''sourcePath'' @ CHR 0x22
                     # '' front matter field.''))
   \<and> generatePage removeExtension (\<lambda>s. []) (\<lambda>c. ''<rss/>'') [(''sourcePath'', JStr ''posts/a.md'')]
       JNull ([] :: (string \<times> unit) list) [(''jsx'', \<lambda>f c. f)]
     = Inl (Error (''Layout not specified for posts/a.md. Add '' @ CHR 0x22 # ''layout''
                     @ CHR 0x22 # '' front matter field.''))
   \<and> (\<exists>pg. generatePage removeExtension (\<lambda>s. []) (\<lambda>c. ''<rss/>'')
              [(''sourcePath'', JStr ''posts/a.md''), (''layout'', JStr ''Post'')]
              JNull ([] :: (string \<times> unit) list) [(''jsx'', \<lambda>f c. f)] = Inr pg
           \<and> pagePath pg = ''posts/a.html'')
   \<and> (\<forall>msg. generatePage removeExtension (\<lambda>s. []) (\<lambda>c. ''<rss/>'')
              [(''sourcePath'', JStr ''posts/a.md''), (''layout'', JStr ''Post'')]
              JNull ([] :: (string \<times> unit) list) [(''jsx'', \<lambda>f c. f)] \<noteq> Inl (Error msg))"
proof -
  let ?rss = "\<lambda>c :: unit render_context. ''<rss/>''"
  let ?gx = "\<lambda>s :: string. ([] :: string)"
  let ?rs = "[(''jsx'', \<lambda>(f :: string) (c :: unit render_context). f)]"
  let ?hs = "[] :: (string \<times> unit) list"
  let ?d1 = "[(''layout'', JStr ''Post'')]"
  let ?d2 = "[(''sourcePath'', JStr ''posts/a.md'')]"
  let ?d3 = "[(''sourcePath'', JStr ''posts/a.md''), (''layout'', JStr ''Post'')]"
  have a: "generatePage removeExtension ?gx ?rss ?d1 JNull ?hs ?rs
     = Inl (Error (''Source path not specified. Add '' @ quoted ''sourcePath''
                        @ '' front matter field.''))"
    using generatePage_requirements [of ?d1 removeExtension ?gx ?rss JNull ?hs ?rs "''''" "''''"]
    by (simp add: js_get_def object_prototype_members_def)
  have b: "generatePage removeExtension ?gx ?rss ?d2 JNull ?hs ?rs
     = Inl (Error (''Layout not specified for '' @ ''posts/a.md''
                        @ ''. Add '' @ quoted ''layout'' @ '' front matter field.''))"
    using generatePage_requirements [of ?d2 removeExtension ?gx ?rss JNull ?hs ?rs "''posts/a.md''" "''''"]
    by (simp add: js_get_def object_prototype_members_def)
  have c: "\<exists>pg. generatePage removeExtension ?gx ?rss ?d3 JNull ?hs ?rs = Inr pg
           \<and> pagePath pg = ''posts/a.html''"
    using generatePage_requirements [of ?d3 removeExtension ?gx ?rss JNull ?hs ?rs "''posts/a.md''" "''Post''"]
    by (simp add: js_get_def is_word_char_def)
  have d: "\<forall>msg. generatePage removeExtension ?gx ?rss ?d3 JNull ?hs ?rs \<noteq> Inl (Error msg)"
    using generatePage_requirements [of ?d3 removeExtension ?gx ?rss JNull ?hs ?rs "''posts/a.md''" "''Post''"]
    by (simp add: js_get_def)
  from a b c d show ?thesis by (simp add: quoted_def)
qed

section \<open>Properties of parsing\<close>


lemma index_of_Some:
  "index_of t s = Some n \<Longrightarrow> s = take n s @ t @ drop (n + length t) s"
proof (induction s arbitrary: n)
  case Nil
  then show ?case by (simp split: if_splits)
next
  case (Cons c cs)
  show ?case
  proof (cases "prefix t (c # cs)")
    case True
    then have "n = 0" using Cons.prems by simp
    moreover from True obtain r where "c # cs = t @ r" by (auto simp: prefix_def)
    ultimately show ?thesis by simp
  next
    case False
    then obtain m where m: "index_of t cs = Some m" and n: "n = Suc m"
      using Cons.prems by auto
    from Cons.IH [OF m] show ?thesis using n by simp
  qed
qed

lemma index_of_None:
  "index_of t s = None \<Longrightarrow> s \<noteq> pre @ t @ post"
proof (induction s arbitrary: pre)
  case Nil
  then show ?case by (simp split: if_splits)
next
  case (Cons c cs)
  from Cons.prems have np: "\<not> prefix t (c # cs)" and rest: "index_of t cs = None"
    by (auto split: if_splits)
  show ?case
  proof (cases pre)
    case Nil
    then show ?thesis using np by (auto simp: prefix_def)
  next
    case (Cons p ps)
    then show ?thesis using Cons.IH [OF rest, of ps] by auto
  qed
qed








lemma rendered_body_string:
  assumes "map_of renderers (gx filepath) \<noteq> None \<or> gx filepath \<notin> set object_prototype_members"
  shows "\<exists>body. rendered_body fm gx source filepath renderers = Inr (JStr body)"
  using assms
  by (auto simp: rendered_body_def renderByType_def inherited_render_def Let_def
        object_prototype_members_def split: option.splits)








section \<open>Properties of grouping\<close>

text \<open>
  When no group key is the name of an inherited member, \<open>groupDocuments\<close> returns the groups
  of the spec: under every key, the documents that have that key, in the order of the input
  (a document once for every time the key occurs among its values).
\<close>

lemma push_group_safe:
  "k \<notin> set object_prototype_members \<Longrightarrow>
   push_group k d g = Inr (AList.update k (group_of g k @ [d]) g)"
  by (simp add: push_group_def group_of_def split: option.splits)

lemma group_of_update:
  "group_of (AList.update k v g) k' = (if k' = k then v else group_of g k')"
  by (simp add: group_of_def update_conv')

lemma push_each_safe:
  "\<forall>v \<in> set vs. js_to_string v \<notin> set object_prototype_members \<Longrightarrow>
   \<exists>g'. push_each vs d g = Inr g'
     \<and> (\<forall>k. group_of g' k = group_of g k @ replicate (count_list (map js_to_string vs) k) d)"
proof (induction vs arbitrary: g)
  case Nil
  show ?case by simp
next
  case (Cons v vs)
  let ?g1 = "AList.update (js_to_string v) (group_of g (js_to_string v) @ [d]) g"
  have step: "push_group (js_to_string v) d g = Inr ?g1"
    using Cons.prems by (simp add: push_group_safe)
  from Cons.prems have "\<forall>v \<in> set vs. js_to_string v \<notin> set object_prototype_members" by simp
  from Cons.IH [OF this, of ?g1] obtain g' where
    g': "push_each vs d ?g1 = Inr g'"
    and rest: "\<And>k. group_of g' k = group_of ?g1 k @ replicate (count_list (map js_to_string vs) k) d"
    by blast
  have "push_each (v # vs) d g = Inr g'" using step g' by simp
  moreover have "group_of g' k
      = group_of g k @ replicate (count_list (map js_to_string (v # vs)) k) d" for k
    by (simp add: rest group_of_update)
  ultimately show ?case by blast
qed

lemma group_step_safe:
  assumes "\<forall>k \<in> set (group_keys field d). k \<notin> set object_prototype_members"
  shows "\<exists>g'. group_step field g d = Inr g'
     \<and> (\<forall>k. group_of g' k = group_of g k @ replicate (count_list (group_keys field d) k) d)"
proof (cases field)
  case (ByName name)
  show ?thesis
  proof (cases "js_get d name")
    case (JArr vs)
    then have keys: "group_keys (ByName name) d = map js_to_string vs"
      by (simp add: group_keys_def)
    have "\<forall>v \<in> set vs. js_to_string v \<notin> set object_prototype_members"
      using assms keys by (simp add: ByName)
    from push_each_safe [OF this, of d g] show ?thesis
      by (simp add: group_step_def ByName JArr keys)
  qed (use assms in \<open>auto simp: group_step_def group_keys_def ByName push_group_safe group_of_update\<close>)
next
  case (ByFunction f)
  then show ?thesis
    using assms
    by (auto simp: group_step_def group_keys_def push_group_safe group_of_update Let_def)
qed

lemma group_from_safe:
  "\<forall>d \<in> set docs. \<forall>k \<in> set (group_keys field d). k \<notin> set object_prototype_members \<Longrightarrow>
   \<exists>g'. group_from field g docs = Inr g'
     \<and> (\<forall>k. group_of g' k
              = group_of g k
                @ concat (map (\<lambda>d. replicate (count_list (group_keys field d) k) d) docs))"
proof (induction docs arbitrary: g)
  case Nil
  show ?case by simp
next
  case (Cons d docs)
  from Cons.prems have "\<forall>k \<in> set (group_keys field d). k \<notin> set object_prototype_members"
    by simp
  from group_step_safe [OF this, of g] obtain g1 where
    s: "group_step field g d = Inr g1"
    and s': "\<And>k. group_of g1 k = group_of g k @ replicate (count_list (group_keys field d) k) d"
    by blast
  from Cons.prems
  have "\<forall>d \<in> set docs. \<forall>k \<in> set (group_keys field d). k \<notin> set object_prototype_members"
    by simp
  from Cons.IH [OF this, of g1] obtain g' where
    r: "group_from field g1 docs = Inr g'"
    and r': "\<And>k. group_of g' k
              = group_of g1 k
                @ concat (map (\<lambda>d. replicate (count_list (group_keys field d) k) d) docs)"
    by blast
  have "group_from field g (d # docs) = Inr g'" using s r by simp
  moreover have "group_of g' k
              = group_of g k
                @ concat (map (\<lambda>d. replicate (count_list (group_keys field d) k) d) (d # docs))"
    for k
    by (simp add: r' s')
  ultimately show ?case by blast
qed

lemma groupDocuments_other_keys:
  assumes "\<forall>d \<in> set docs. \<forall>k \<in> set (group_keys field d). k \<notin> set object_prototype_members"
  shows "\<exists>g. groupDocuments docs field = Inr g
     \<and> (\<forall>k. group_of g k
              = concat (map (\<lambda>d. replicate (count_list (group_keys field d) k) d) docs))"
  using group_from_safe [OF assms, of "[]"] by (simp add: groupDocuments_def group_of_def)

text \<open>
  C5. Grouping fails on a group key that is the name of a member every object inherits: the
  document is not placed in the group \<^verbatim>\<open>constructor\<close>, the call raises a \<open>TypeError\<close>.
\<close>

theorem groupDocuments_inherited_key:
  "groupDocuments [[(''title'', JStr ''Post''), (''tags'', JArr [JStr ''js'', JStr ''constructor''])]]
     (ByName ''tags'') = Inl TypeError"
  by (simp add: groupDocuments_def group_step_def js_get_def push_group_def
        object_prototype_members_def)

end
